theory Spec2Isabelle
  imports Main "HOL-Library.Word"
begin

unbundle bit_operations_syntax

section \<open>mpyq: a reader for MPQ archives\<close>

text \<open>
  A shallow embedding of \<^verbatim>\<open>src/mpyq.py\<close>: the generator of the encryption table,
  the hash function, the cipher, the resolution of a name, and \<^verbatim>\<open>read_file\<close> and
  \<^verbatim>\<open>extract\<close> with what they call. Opening an archive (\<^verbatim>\<open>read_header\<close>,
  \<^verbatim>\<open>read_table\<close>), the printing methods and the command line are not modelled: an
  archive object is any value of the record \<open>archive\<close> below.

  Python integers are unbounded and are modelled as \<open>int\<close>; every reduction to 32 bits
  is a \<^verbatim>\<open>& 0xFFFFFFFF\<close> that the source writes, and none is added where the source has
  none. Values that \<^verbatim>\<open>struct.unpack\<close> produces from fixed-width fields are kept as
  words of that width and read with \<open>uint\<close>. Byte buffers are lists of 8-bit words.

  A name is a \<^verbatim>\<open>str\<close> or a \<^verbatim>\<open>bytes\<close> object. Python's Unicode tables are not part
  of the repository: the case mapping of the characters from \<open>0x80\<close> on is a parameter of
  the model (the record \<open>casing\<close>): a theorem with a free \<open>cs\<close> holds for every case
  mapping. What the code prints is not modelled.
\<close>

type_synonym u8 = "8 word"
type_synonym u16 = "16 word"
type_synonym u32 = "32 word"
type_synonym bytes = "u8 list"

text \<open>The exceptions the modelled code can raise.\<close>

datatype error =
    KeyError
  | IndexError
  | StructError
  | TypeError
  | ValueError
  | CodecError
  | RuntimeError

subsection \<open>Flag constants\<close>

definition MPQ_FILE_IMPLODE :: u32 where "MPQ_FILE_IMPLODE = 0x00000100"
definition MPQ_FILE_COMPRESS :: u32 where "MPQ_FILE_COMPRESS = 0x00000200"
definition MPQ_FILE_ENCRYPTED :: u32 where "MPQ_FILE_ENCRYPTED = 0x00010000"
definition MPQ_FILE_FIX_KEY :: u32 where "MPQ_FILE_FIX_KEY = 0x00020000"
definition MPQ_FILE_SINGLE_UNIT :: u32 where "MPQ_FILE_SINGLE_UNIT = 0x01000000"
definition MPQ_FILE_DELETE_MARKER :: u32 where "MPQ_FILE_DELETE_MARKER = 0x02000000"
definition MPQ_FILE_SECTOR_CRC :: u32 where "MPQ_FILE_SECTOR_CRC = 0x04000000"
definition MPQ_FILE_EXISTS :: u32 where "MPQ_FILE_EXISTS = 0x80000000"

subsection \<open>The encryption table (\<^verbatim>\<open>_prepare_encryption_table\<close>)\<close>

text \<open>
  \<^verbatim>\<open>seed = (seed * 125 + 3) % 0x2AAAAB\<close>, the statement that occurs twice in the
  body of the inner loop.
\<close>

definition next_seed :: "int \<Rightarrow> int" where
  "next_seed seed = (seed * 125 + 3) mod 0x2AAAAB"

text \<open>
  \<^verbatim>\<open>for j in range(5)\<close>: the first argument counts the iterations that are left; the
  state is the seed, the running index and the dictionary under construction.
\<close>

fun inner_loop :: "nat \<Rightarrow> int \<times> nat \<times> (nat \<rightharpoonup> int) \<Rightarrow> int \<times> nat \<times> (nat \<rightharpoonup> int)" where
  "inner_loop 0 st = st"
| "inner_loop (Suc n) (seed, index, crypt_table) =
     (let seed = next_seed seed;
          temp1 = push_bit 0x10 (seed AND 0xFFFF);
          seed = next_seed seed;
          temp2 = seed AND 0xFFFF
      in inner_loop n (seed, index + 0x100, crypt_table(index \<mapsto> temp1 OR temp2)))"

text \<open>\<^verbatim>\<open>for i in range(256): index = i; ...\<close>\<close>

fun outer_loop :: "nat list \<Rightarrow> int \<times> (nat \<rightharpoonup> int) \<Rightarrow> int \<times> (nat \<rightharpoonup> int)" where
  "outer_loop [] st = st"
| "outer_loop (i # rest) (seed, crypt_table) =
     (case inner_loop 5 (seed, i, crypt_table) of
        (seed', _, crypt_table') \<Rightarrow> outer_loop rest (seed', crypt_table'))"

definition prepare_encryption_table :: "nat \<rightharpoonup> int" where
  "prepare_encryption_table = snd (outer_loop [0..<256] (0x00100001, Map.empty))"

definition encryption_table :: "nat \<rightharpoonup> int" where
  "encryption_table = prepare_encryption_table"

subsection \<open>Names\<close>

text \<open>
  A \<^verbatim>\<open>str\<close> is a sequence of code points, a \<^verbatim>\<open>bytes\<close> object a sequence of bytes.
  \<open>py_str\<close> and \<open>py_bytes\<close> give the value of an ASCII literal (\<^verbatim>\<open>"..."\<close> and
  \<^verbatim>\<open>b"..."\<close>).
\<close>

datatype name = Str "nat list" | Bytes bytes

definition py_str :: "string \<Rightarrow> name" where
  "py_str s = Str (map of_char s)"

definition py_bytes :: "string \<Rightarrow> name" where
  "py_bytes s = Bytes (map of_char s)"

text \<open>
  The case mapping of ASCII: the letters \<^verbatim>\<open>a\<close>..\<^verbatim>\<open>z\<close> (0x61..0x7A) and
  \<^verbatim>\<open>A\<close>..\<^verbatim>\<open>Z\<close> (0x41..0x5A) are exchanged, every other code is kept.
\<close>

definition ascii_upper :: "nat \<Rightarrow> nat" where
  "ascii_upper c = (if 0x61 \<le> c \<and> c \<le> 0x7A then c - 0x20 else c)"

definition ascii_lower :: "nat \<Rightarrow> nat" where
  "ascii_lower c = (if 0x41 \<le> c \<and> c \<le> 0x5A then c + 0x20 else c)"

text \<open>
  The case mapping of the other characters of a \<^verbatim>\<open>str\<close>, which Python takes from its
  Unicode tables. \<^verbatim>\<open>str.upper()\<close> maps each character by itself, to one character or to
  several (\<open>upper_full\<close>). \<^verbatim>\<open>str.lower()\<close> does the same, except that what a character
  becomes can depend on its neighbours (the final sigma): \<open>lower_full s i\<close> is what the
  character at index \<open>i\<close> of \<open>s\<close> becomes.
\<close>

record casing =
  upper_full :: "nat \<Rightarrow> nat list"
  lower_full :: "nat list \<Rightarrow> nat \<Rightarrow> nat list"

definition str_upper :: "casing \<Rightarrow> nat list \<Rightarrow> nat list" where
  "str_upper cs s =
     concat (map (\<lambda>c. if c < 0x80 then [ascii_upper c] else upper_full cs c) s)"

definition str_lower :: "casing \<Rightarrow> nat list \<Rightarrow> nat list" where
  "str_lower cs s =
     concat (map (\<lambda>i. if s ! i < 0x80 then [ascii_lower (s ! i)] else lower_full cs s i)
               [0..<length s])"

text \<open>\<^verbatim>\<open>bytes.upper()\<close> and \<^verbatim>\<open>bytes.lower()\<close> map the ASCII letters and keep every other byte.\<close>

definition bytes_upper :: "bytes \<Rightarrow> bytes" where
  "bytes_upper b = map (\<lambda>x. of_nat (ascii_upper (unat x))) b"

definition bytes_lower :: "bytes \<Rightarrow> bytes" where
  "bytes_lower b = map (\<lambda>x. of_nat (ascii_lower (unat x))) b"

fun upper :: "casing \<Rightarrow> name \<Rightarrow> name" where
  "upper cs (Str s) = Str (str_upper cs s)"
| "upper cs (Bytes b) = Bytes (bytes_upper b)"

fun lower :: "casing \<Rightarrow> name \<Rightarrow> name" where
  "lower cs (Str s) = Str (str_lower cs s)"
| "lower cs (Bytes b) = Bytes (bytes_lower b)"

text \<open>
  The integers that \<^verbatim>\<open>_hash\<close> works on: iterating over \<^verbatim>\<open>bytes\<close> gives integers, and
  \<^verbatim>\<open>ord\<close> is applied to the characters of a \<^verbatim>\<open>str\<close>.
\<close>

fun ords :: "name \<Rightarrow> nat list" where
  "ords (Str s) = s"
| "ords (Bytes b) = map unat b"

subsection \<open>The hash function (\<^verbatim>\<open>_hash\<close>)\<close>

datatype hash_type = TABLE_OFFSET | HASH_A | HASH_B | TABLE | HASH_NUM

fun hash_types :: "hash_type \<Rightarrow> nat" where
  "hash_types TABLE_OFFSET = 0"
| "hash_types HASH_A = 1"
| "hash_types HASH_B = 2"
| "hash_types TABLE = 3"
| "hash_types HASH_NUM = 4"

text \<open>
  \<^verbatim>\<open>for ch in string.upper()\<close>, over the integers of the upper-cased name. A
  dictionary lookup that misses raises \<^verbatim>\<open>KeyError\<close>.
\<close>

fun hash_loop :: "nat list \<Rightarrow> hash_type \<Rightarrow> int \<times> int \<Rightarrow> error + int" where
  "hash_loop [] hash_type (seed1, seed2) = Inr seed1"
| "hash_loop (ch # rest) hash_type (seed1, seed2) =
     (case encryption_table (push_bit 8 (hash_types hash_type) + ch) of
        None \<Rightarrow> Inl KeyError
      | Some v \<Rightarrow>
          (let seed1 = (v XOR (seed1 + seed2)) AND 0xFFFFFFFF;
               seed2 = (int ch + seed1 + seed2 + push_bit 5 seed2 + 3) AND 0xFFFFFFFF
           in hash_loop rest hash_type (seed1, seed2)))"

definition hash :: "casing \<Rightarrow> name \<Rightarrow> hash_type \<Rightarrow> error + int" where
  "hash cs string hash_type =
     hash_loop (ords (upper cs string)) hash_type (0x7FED7FED, 0xEEEEEEEE)"

subsection \<open>Packing and slicing\<close>

text \<open>\<^verbatim>\<open>xs[a:b]\<close> for indices that are not negative.\<close>

definition pyslice :: "'a list \<Rightarrow> nat \<Rightarrow> nat \<Rightarrow> 'a list" where
  "pyslice xs a b = take (b - a) (drop a xs)"

text \<open>The little-endian value of a byte sequence.\<close>

fun le_value :: "bytes \<Rightarrow> int" where
  "le_value [] = 0"
| "le_value (b # bs) = uint b + 0x100 * le_value bs"

text \<open>
  \<^verbatim>\<open>struct.unpack('<%dI' % n, data)\<close>: \<^verbatim>\<open>struct.error\<close> unless the buffer has
  exactly \<open>4 * n\<close> bytes.
\<close>

definition unpack_I :: "nat \<Rightarrow> bytes \<Rightarrow> error + int list" where
  "unpack_I n data =
     (if length data \<noteq> 4 * n then Inl StructError
      else Inr (map (\<lambda>k. le_value (pyslice data (4 * k) (4 * k + 4))) [0..<n]))"

text \<open>\<^verbatim>\<open>struct.pack("<I", value)\<close>: \<^verbatim>\<open>struct.error\<close> outside \<open>0 .. 2^32 - 1\<close>.\<close>

definition pack_I :: "int \<Rightarrow> error + bytes" where
  "pack_I v =
     (if 0 \<le> v \<and> v \<le> 0xFFFFFFFF
      then Inr [word_of_int v, word_of_int (drop_bit 8 v),
                word_of_int (drop_bit 16 v), word_of_int (drop_bit 24 v)]
      else Inl StructError)"

subsection \<open>The cipher (\<^verbatim>\<open>_decrypt\<close>)\<close>

text \<open>
  \<^verbatim>\<open>for i in range(len(data) // 4)\<close>; the state is \<open>seed1\<close>, \<open>seed2\<close> and the
  bytes written to \<open>result\<close> so far.
\<close>

fun decrypt_loop :: "bytes \<Rightarrow> nat list \<Rightarrow> int \<times> int \<times> bytes \<Rightarrow> error + bytes" where
  "decrypt_loop data [] (seed1, seed2, result) = Inr result"
| "decrypt_loop data (i # rest) (seed1, seed2, result) =
     (case encryption_table (nat (0x400 + (seed1 AND 0xFF))) of
        None \<Rightarrow> Inl KeyError
      | Some t \<Rightarrow>
          (let seed2 = seed2 + t;
               seed2 = seed2 AND 0xFFFFFFFF
           in case unpack_I 1 (pyslice data (i * 4) (i * 4 + 4)) of
                Inl e \<Rightarrow> Inl e
              | Inr vs \<Rightarrow>
                  (let v = vs ! 0;
                       v = (v XOR (seed1 + seed2)) AND 0xFFFFFFFF;
                       seed1 = (push_bit 0x15 (NOT seed1) + 0x11111111) OR drop_bit 0x0B seed1;
                       seed1 = seed1 AND 0xFFFFFFFF;
                       seed2 = (v + seed2 + push_bit 5 seed2 + 3) AND 0xFFFFFFFF
                   in case pack_I v of
                        Inl e \<Rightarrow> Inl e
                      | Inr packed \<Rightarrow> decrypt_loop data rest (seed1, seed2, result @ packed))))"

definition decrypt :: "bytes \<Rightarrow> int \<Rightarrow> error + bytes" where
  "decrypt data key = decrypt_loop data [0..<length data div 4] (key, 0xEEEEEEEE, [])"

subsection \<open>The archive\<close>

text \<open>
  The named tuples \<^verbatim>\<open>MPQHashTableEntry\<close> (\<^verbatim>\<open>'2I2HI'\<close>) and
  \<^verbatim>\<open>MPQBlockTableEntry\<close> (\<^verbatim>\<open>'4I'\<close>). The field \<^verbatim>\<open>locale\<close> is written
  \<open>locale_id\<close> and the field \<^verbatim>\<open>size\<close> is written \<open>size_orig\<close>.
\<close>

record hash_table_entry =
  hash_a :: u32
  hash_b :: u32
  locale_id :: u16
  platform :: u16
  block_table_index :: u32

record block_table_entry =
  offset :: u32
  archived_size :: u32
  size_orig :: u32
  flags :: u32

text \<open>
  The header dictionary: the fields of \<^verbatim>\<open>MPQFileHeader\<close> that the read path uses
  and the key \<^verbatim>\<open>'offset'\<close> (written \<open>hdr_offset\<close>), which \<^verbatim>\<open>read_header\<close> sets to
  0 or to the \<^verbatim>\<open>mpq_header_offset\<close> of the user data header.
\<close>

record mpq_header =
  sector_size_shift :: u16
  hash_table_offset :: u32
  block_table_offset :: u32
  hash_table_entries :: u32
  block_table_entries :: u32
  hdr_offset :: u32

text \<open>The open file: its bytes and the position that \<^verbatim>\<open>seek\<close> and \<^verbatim>\<open>read\<close> move.\<close>

record file_obj =
  content :: bytes
  pos :: nat

definition file_seek :: "file_obj \<Rightarrow> nat \<Rightarrow> file_obj" where
  "file_seek f off = f\<lparr>pos := off\<rparr>"

definition file_read :: "file_obj \<Rightarrow> nat \<Rightarrow> bytes \<times> file_obj" where
  "file_read f n =
     (let data = take n (drop (pos f) (content f))
      in (data, f\<lparr>pos := pos f + length data\<rparr>))"

text \<open>
  The attributes of an \<^verbatim>\<open>MPQArchive\<close> object (\<^verbatim>\<open>self.file\<close> is written
  \<open>file_h\<close>).
\<close>

record archive =
  file_h :: file_obj
  header :: mpq_header
  hash_table :: "hash_table_entry list"
  block_table :: "block_table_entry list"
  files :: "name list option"

subsection \<open>Resolving a name (\<^verbatim>\<open>get_hash_table_entry\<close>, \<^verbatim>\<open>get_file_key\<close>)\<close>

definition get_hash_table_entry ::
    "casing \<Rightarrow> archive \<Rightarrow> name \<Rightarrow> error + hash_table_entry option" where
  "get_hash_table_entry cs self filename =
     (case hash cs filename HASH_A of
        Inl e \<Rightarrow> Inl e
      | Inr ha \<Rightarrow>
          (case hash cs filename HASH_B of
             Inl e \<Rightarrow> Inl e
           | Inr hb \<Rightarrow>
               Inr (find (\<lambda>entry. uint (hash_a entry) = ha \<and> uint (hash_b entry) = hb)
                      (hash_table self))))"

text \<open>
  \<^verbatim>\<open>filename.replace('\\', '//')\<close> on a \<^verbatim>\<open>str\<close>: every backslash (0x5C) becomes two
  slashes (0x2F).
\<close>

definition replace_backslash :: "nat list \<Rightarrow> nat list" where
  "replace_backslash s = concat (map (\<lambda>c. if c = 0x5C then [0x2F, 0x2F] else [c]) s)"

text \<open>\<^verbatim>\<open>os.path.basename\<close> (\<^verbatim>\<open>posixpath\<close>): what follows the last slash.\<close>

definition basename :: "nat list \<Rightarrow> nat list" where
  "basename p = rev (takeWhile (\<lambda>c. c \<noteq> 0x2F) (rev p))"

text \<open>
  On a \<^verbatim>\<open>bytes\<close> name the call of \<^verbatim>\<open>replace\<close> with \<^verbatim>\<open>str\<close> arguments raises
  \<^verbatim>\<open>TypeError\<close>. The key is a Python integer: \<^verbatim>\<open>key += ...\<close> and \<^verbatim>\<open>key ^= ...\<close> are
  not followed by a reduction to 32 bits.
\<close>

definition get_file_key ::
    "casing \<Rightarrow> archive \<Rightarrow> name \<Rightarrow> block_table_entry \<Rightarrow> bool \<Rightarrow> error + int" where
  "get_file_key cs self filename block_entry strip =
     (case (if strip
            then (case filename of
                    Str s \<Rightarrow> Inr (Str (basename (replace_backslash s)))
                  | Bytes b \<Rightarrow> Inl TypeError)
            else Inr filename) of
        Inl e \<Rightarrow> Inl e
      | Inr base \<Rightarrow>
          (case hash cs base TABLE of
             Inl e \<Rightarrow> Inl e
           | Inr key \<Rightarrow>
               (if flags block_entry AND MPQ_FILE_FIX_KEY \<noteq> 0
                then (let key = key + (uint (offset block_entry) - uint (hdr_offset (header self)));
                          key = key XOR uint (size_orig block_entry)
                      in Inr key)
                else Inr key)))"

subsection \<open>Decompression (\<^verbatim>\<open>decompress\<close>, local to \<^verbatim>\<open>read_file\<close>)\<close>

text \<open>
  The decoders are outside the repository and are parameters: \<open>None\<close> from
  \<open>zlib_decompress\<close> or \<open>bz2_decompress\<close> is the library's exception; \<open>ttdecomp\<close> is
  \<open>None\<close> when \<^verbatim>\<open>shutil.which\<close> does not find the tool, and otherwise gives the
  standard output of the tool, which the code takes whatever the exit status.
\<close>

record codecs =
  zlib_decompress :: "bytes \<Rightarrow> bytes option"
  bz2_decompress :: "bytes \<Rightarrow> bytes option"
  ttdecomp :: "(bytes \<Rightarrow> bytes) option"

datatype CompressionType =
  NONE | DEFLATE | IMPLODE | BZIP2 | LZMA | SPARSE | ADPCM | ADPCM_STEREO

fun CompressionType_value :: "CompressionType \<Rightarrow> u8" where
  "CompressionType_value NONE = 0"
| "CompressionType_value DEFLATE = 2"
| "CompressionType_value IMPLODE = 8"
| "CompressionType_value BZIP2 = 16"
| "CompressionType_value LZMA = 18"
| "CompressionType_value SPARSE = 32"
| "CompressionType_value ADPCM = 64"
| "CompressionType_value ADPCM_STEREO = 128"

text \<open>\<^verbatim>\<open>CompressionType(data[0])\<close>: the member with that value, else \<^verbatim>\<open>ValueError\<close>.\<close>

definition CompressionType_of :: "u8 \<Rightarrow> CompressionType option" where
  "CompressionType_of tag =
     find (\<lambda>t. CompressionType_value t = tag)
       [NONE, DEFLATE, IMPLODE, BZIP2, LZMA, SPARSE, ADPCM, ADPCM_STEREO]"

definition decompress :: "codecs \<Rightarrow> bytes \<Rightarrow> error + bytes" where
  "decompress cd data =
     (case data of
        [] \<Rightarrow> Inl IndexError
      | tag # data \<Rightarrow>
          (case CompressionType_of tag of
             None \<Rightarrow> Inl ValueError
           | Some NONE \<Rightarrow> Inr data
           | Some DEFLATE \<Rightarrow>
               (case zlib_decompress cd data of None \<Rightarrow> Inl CodecError | Some d \<Rightarrow> Inr d)
           | Some BZIP2 \<Rightarrow>
               (case bz2_decompress cd data of None \<Rightarrow> Inl CodecError | Some d \<Rightarrow> Inr d)
           | Some IMPLODE \<Rightarrow>
               (case ttdecomp cd of Some run \<Rightarrow> Inr (run data) | None \<Rightarrow> Inr data)
           | Some LZMA \<Rightarrow> Inr data
           | Some SPARSE \<Rightarrow> Inr data
           | Some ADPCM \<Rightarrow> Inr data
           | Some ADPCM_STEREO \<Rightarrow> Inr data))"

subsection \<open>Reading a file (\<^verbatim>\<open>read_file\<close>)\<close>

text \<open>
  The sector offset table of a file that is not a single unit (source lines 285 to 299).
  The result is the flag \<open>crc\<close> and the tuple \<open>positions\<close>. The argument \<open>key\<close> is
  read only when the block is encrypted.
\<close>

definition read_positions ::
    "mpq_header \<Rightarrow> block_table_entry \<Rightarrow> bytes \<Rightarrow> int \<Rightarrow> error + bool \<times> int list" where
  "read_positions hdr block_entry file_data key =
     (let sector_size = push_bit (unat (sector_size_shift hdr)) (512 :: int);
          sectors = uint (size_orig block_entry) div sector_size + 1;
          crc = (flags block_entry AND MPQ_FILE_SECTOR_CRC \<noteq> 0);
          sectors = (if crc then sectors + 1 else sectors);
          n_offsets = sectors + 1;
          offset_table = pyslice file_data 0 (nat (4 * n_offsets))
      in case (if flags block_entry AND MPQ_FILE_ENCRYPTED \<noteq> 0
               then decrypt offset_table (key - 1) else Inr offset_table) of
           Inl e \<Rightarrow> Inl e
         | Inr offset_table \<Rightarrow>
             (case unpack_I (nat n_offsets) offset_table of
                Inl e \<Rightarrow> Inl e
              | Inr positions \<Rightarrow> Inr (crc, positions)))"

text \<open>
  One sector after its decryption (source lines 311 to 320): the check for an imploded
  sector that the block flags do not announce, then the decompression.
\<close>

definition sector_body :: "codecs \<Rightarrow> bool \<Rightarrow> u32 \<Rightarrow> int \<Rightarrow> bytes \<Rightarrow> error + bytes" where
  "sector_body cd force_decompress block_flags sector_bytes_left sector =
     (let (flags, sector) =
            (if take 2 sector = [0x00, 0x06]
             then (block_flags OR MPQ_FILE_COMPRESS, CompressionType_value IMPLODE # sector)
             else (block_flags, sector))
      in if flags AND MPQ_FILE_COMPRESS \<noteq> 0
            \<and> (force_decompress \<or> sector_bytes_left > int (length sector))
         then decompress cd sector
         else Inr sector)"

text \<open>
  \<^verbatim>\<open>for i in range(len(positions) - (2 if crc else 1))\<close>; the state is
  \<open>sector_bytes_left\<close> and the bytes written to \<open>result\<close>. The indices \<open>i\<close> and
  \<open>i + 1\<close> are inside \<open>positions\<close> by the bound of the range.
\<close>

fun sector_loop ::
    "codecs \<Rightarrow> bool \<Rightarrow> block_table_entry \<Rightarrow> bytes \<Rightarrow> int list \<Rightarrow> int \<Rightarrow> nat list
      \<Rightarrow> int \<times> bytes \<Rightarrow> error + bytes" where
  "sector_loop cd force_decompress block_entry file_data positions key []
     (sector_bytes_left, result) = Inr result"
| "sector_loop cd force_decompress block_entry file_data positions key (i # rest)
     (sector_bytes_left, result) =
     (let sector = pyslice file_data (nat (positions ! i)) (nat (positions ! (i + 1)))
      in case (if flags block_entry AND MPQ_FILE_ENCRYPTED \<noteq> 0
               then decrypt sector (key + int i) else Inr sector) of
           Inl e \<Rightarrow> Inl e
         | Inr sector \<Rightarrow>
             (case sector_body cd force_decompress (flags block_entry) sector_bytes_left sector of
                Inl e \<Rightarrow> Inl e
              | Inr sector \<Rightarrow>
                  sector_loop cd force_decompress block_entry file_data positions key rest
                    (sector_bytes_left - int (length sector), result @ sector)))"

text \<open>
  What \<^verbatim>\<open>read_file\<close> does with the bytes of a block once they are read (source lines
  279 to 332). Python binds \<open>key\<close> only for an encrypted block; the 0 stands for the
  unbound variable and is never read.
\<close>

definition unpack_block ::
    "codecs \<Rightarrow> casing \<Rightarrow> archive \<Rightarrow> name \<Rightarrow> bool \<Rightarrow> block_table_entry \<Rightarrow> bytes
      \<Rightarrow> error + bytes" where
  "unpack_block cd cs self filename force_decompress block_entry file_data =
     (case (if flags block_entry AND MPQ_FILE_ENCRYPTED \<noteq> 0
            then get_file_key cs self filename block_entry True else Inr 0) of
        Inl e \<Rightarrow> Inl e
      | Inr key \<Rightarrow>
          (if flags block_entry AND MPQ_FILE_SINGLE_UNIT = 0
           then (case read_positions (header self) block_entry file_data key of
                   Inl e \<Rightarrow> Inl e
                 | Inr (crc, positions) \<Rightarrow>
                     sector_loop cd force_decompress block_entry file_data positions key
                       [0..<length positions - (if crc then 2 else 1)]
                       (uint (size_orig block_entry), []))
           else if flags block_entry AND MPQ_FILE_COMPRESS \<noteq> 0
                   \<and> (force_decompress
                        \<or> uint (size_orig block_entry) > uint (archived_size block_entry))
                then decompress cd file_data
                else Inr file_data))"

text \<open>
  The result of \<^verbatim>\<open>read_file\<close> is an exception (\<open>Inl\<close>), \<^verbatim>\<open>None\<close> (\<open>Inr None\<close>) or
  bytes (\<open>Inr (Some data)\<close>), together with the archive object after the call. An index
  past the end of \<^verbatim>\<open>self.block_table\<close> raises \<^verbatim>\<open>IndexError\<close>. A block without
  \<^verbatim>\<open>MPQ_FILE_EXISTS\<close> falls off the end of the function, which returns \<^verbatim>\<open>None\<close>.
\<close>

definition read_file ::
    "codecs \<Rightarrow> casing \<Rightarrow> archive \<Rightarrow> name \<Rightarrow> bool
      \<Rightarrow> (error + bytes option) \<times> archive" where
  "read_file cd cs self filename force_decompress =
     (case get_hash_table_entry cs self filename of
        Inl e \<Rightarrow> (Inl e, self)
      | Inr None \<Rightarrow> (Inr None, self)
      | Inr (Some hash_entry) \<Rightarrow>
          (if unat (block_table_index hash_entry) \<ge> length (block_table self)
           then (Inl IndexError, self)
           else
             (let block_entry = block_table self ! unat (block_table_index hash_entry)
              in if flags block_entry AND MPQ_FILE_EXISTS \<noteq> 0
                 then
                   (if archived_size block_entry = 0 then (Inr None, self)
                    else
                      (let offset = uint (offset block_entry) + uint (hdr_offset (header self));
                           (file_data, f) =
                              file_read (file_seek (file_h self) (nat offset))
                                (unat (archived_size block_entry));
                           self = self\<lparr>file_h := f\<rparr>
                       in (case unpack_block cd cs self filename force_decompress block_entry
                                  file_data of
                             Inl e \<Rightarrow> Inl e
                           | Inr file_data \<Rightarrow> Inr (Some file_data),
                           self)))
                 else (Inr None, self))))"

subsection \<open>Extracting (\<^verbatim>\<open>extract\<close>)\<close>

text \<open>
  \<^verbatim>\<open>dict((f, self.read_file(f)) for f in files)\<close>: the files are read in order, an
  exception ends the loop, and a name that occurs twice keeps its last result.
\<close>

fun extract_loop ::
    "codecs \<Rightarrow> casing \<Rightarrow> name list \<Rightarrow> (name \<rightharpoonup> bytes option) \<Rightarrow> archive
      \<Rightarrow> (error + (name \<rightharpoonup> bytes option)) \<times> archive" where
  "extract_loop cd cs [] result self = (Inr result, self)"
| "extract_loop cd cs (f # rest) result self =
     (case read_file cd cs self f False of
        (Inl e, self) \<Rightarrow> (Inl e, self)
      | (Inr data, self) \<Rightarrow> extract_loop cd cs rest (result(f \<mapsto> data)) self)"

text \<open>
  The method \<^verbatim>\<open>extract\<close>, written \<open>extract_mem\<close>. \<^verbatim>\<open>files or self.files\<close>: an
  empty or absent argument gives way to the attribute.
\<close>

definition extract_mem ::
    "codecs \<Rightarrow> casing \<Rightarrow> archive \<Rightarrow> name list option
      \<Rightarrow> (error + (name \<rightharpoonup> bytes option)) \<times> archive" where
  "extract_mem cd cs self files_arg =
     (let fs = (case files_arg of
                  Some (f # rest) \<Rightarrow> Some (f # rest)
                | _ \<Rightarrow> files self)
      in case fs of
           Some (f # rest) \<Rightarrow> extract_loop cd cs (f # rest) Map.empty self
         | _ \<Rightarrow> (Inl RuntimeError, self))"

subsection \<open>The stream of seeds\<close>

text \<open>
  Three functions for the proofs, none of them part of the program: the seed after \<open>n\<close>
  steps of the generator, the seed with which row \<open>i\<close> of the outer loop starts, and the
  table entry that one pass of the inner loop's body writes when it starts with seed \<open>s\<close>.
\<close>

fun seed_after :: "nat \<Rightarrow> int \<Rightarrow> int" where
  "seed_after 0 s = s"
| "seed_after (Suc n) s = seed_after n (next_seed s)"

definition row_seed :: "nat \<Rightarrow> int" where
  "row_seed i = seed_after (10 * i) 0x00100001"

definition entry_of :: "int \<Rightarrow> int" where
  "entry_of s =
     push_bit 0x10 (next_seed s AND 0xFFFF) OR (next_seed (next_seed s) AND 0xFFFF)"

section \<open>The encryption table\<close>

subsection \<open>What the loops compute\<close>

lemma seed_after_add: "seed_after (m + n) s = seed_after n (seed_after m s)"
  by (induction m arbitrary: s) simp_all

lemma seed_after_Suc_right: "seed_after (Suc n) s = next_seed (seed_after n s)"
  using seed_after_add [of n 1 s] by simp

lemma seed_after_numeral:
  "seed_after (numeral k) s = seed_after (pred_numeral k) (next_seed s)"
  by (simp add: numeral_eq_Suc)

lemma inner_loop_seed:
  "fst (inner_loop n (seed, index, tbl)) = seed_after (2 * n) seed"
  by (induction n arbitrary: seed index tbl) (simp_all add: Let_def)

lemma inner_loop_other:
  "(\<forall>j<n. k \<noteq> index + 256 * j) \<Longrightarrow> snd (snd (inner_loop n (seed, index, tbl))) k = tbl k"
proof (induction n arbitrary: seed index tbl)
  case 0
  then show ?case by simp
next
  case (Suc n)
  have a: "k \<noteq> index"
    using Suc.prems by (metis mult_0_right add_0_right zero_less_Suc)
  have b: "\<forall>j<n. k \<noteq> (index + 256) + 256 * j"
  proof (intro allI impI)
    fix j assume "j < n"
    then have "k \<noteq> index + 256 * Suc j" using Suc.prems by blast
    then show "k \<noteq> (index + 256) + 256 * j" by simp
  qed
  show ?case using Suc.IH [OF b] a by (simp add: Let_def)
qed

lemma inner_loop_entry:
  "j < n \<Longrightarrow> snd (snd (inner_loop n (seed, index, tbl))) (index + 256 * j)
      = Some (entry_of (seed_after (2 * j) seed))"
proof (induction n arbitrary: seed index tbl j)
  case 0
  then show ?case by simp
next
  case (Suc n)
  show ?case
  proof (cases j)
    case 0
    have "\<forall>j'<n. index \<noteq> (index + 256) + 256 * j'" by simp
    from inner_loop_other [OF this] show ?thesis
      using 0 by (simp add: Let_def entry_of_def)
  next
    case (Suc j')
    then have "j' < n" using Suc.prems by simp
    from Suc.IH [OF this, of "next_seed (next_seed seed)" "index + 256"] show ?thesis
      using Suc by (simp add: Let_def add.assoc)
  qed
qed

text \<open>One row of the outer loop, as a step on the pair the loop carries.\<close>

lemma outer_loop_step:
  assumes "inner_loop 5 (seed, a, tbl) = (s', i', t')"
  shows "outer_loop [a..<a + Suc m] (seed, tbl) = outer_loop [Suc a..<Suc a + m] (s', t')"
proof -
  have "[a..<a + Suc m] = a # [Suc a..<Suc a + m]" by (simp add: upt_rec)
  then show ?thesis using assms by (simp del: inner_loop.simps)
qed

lemma outer_loop_other:
  "(\<forall>i<m. \<forall>j<5. k \<noteq> (a + i) + 256 * j)
     \<Longrightarrow> snd (outer_loop [a..<a + m] (seed, tbl)) k = tbl k"
proof (induction m arbitrary: a seed tbl)
  case 0
  then show ?case by simp
next
  case (Suc m)
  obtain s' i' t' where il: "inner_loop 5 (seed, a, tbl) = (s', i', t')"
    by (cases "inner_loop 5 (seed, a, tbl)")
  have "\<forall>j<5. k \<noteq> a + 256 * j"
    using Suc.prems by (metis add_0_right zero_less_Suc)
  from inner_loop_other [OF this, of seed tbl] il have t': "t' k = tbl k" by simp
  have "\<forall>i<m. \<forall>j<5. k \<noteq> (Suc a + i) + 256 * j"
  proof (intro allI impI)
    fix i j :: nat assume "i < m" "j < 5"
    then have "k \<noteq> (a + Suc i) + 256 * j" using Suc.prems by (metis Suc_less_eq)
    then show "k \<noteq> (Suc a + i) + 256 * j" by simp
  qed
  from Suc.IH [OF this, of s' t'] show ?case
    using outer_loop_step [OF il, of m] t' by simp
qed

lemma outer_loop_entry:
  "i < m \<Longrightarrow> j < 5 \<Longrightarrow> a + m \<le> 256 \<Longrightarrow>
    snd (outer_loop [a..<a + m] (seed, tbl)) ((a + i) + 256 * j)
      = Some (entry_of (seed_after (10 * i + 2 * j) seed))"
proof (induction m arbitrary: a seed tbl i)
  case 0
  then show ?case by simp
next
  case (Suc m)
  obtain s' i' t' where il: "inner_loop 5 (seed, a, tbl) = (s', i', t')"
    by (cases "inner_loop 5 (seed, a, tbl)")
  have s': "s' = seed_after 10 seed"
    using inner_loop_seed [of 5 seed a tbl] il by simp
  note st = outer_loop_step [OF il, of m]
  show ?case
  proof (cases i)
    case 0
    have "\<forall>i'<m. \<forall>j'<5. a + 256 * j \<noteq> (Suc a + i') + 256 * j'"
    proof (intro allI impI)
      fix i' j' :: nat assume "i' < m" "j' < 5"
      then have small: "Suc i' < 256" using Suc.prems(3) by simp
      show "a + 256 * j \<noteq> (Suc a + i') + 256 * j'"
      proof
        assume "a + 256 * j = (Suc a + i') + 256 * j'"
        then have "256 * j = Suc i' + 256 * j'" by simp
        then have "(256 * j) mod 256 = (Suc i' + 256 * j') mod 256" by (simp only:)
        then show False using small by simp
      qed
    qed
    from outer_loop_other [OF this, of s' t']
    have "snd (outer_loop [Suc a..<Suc a + m] (s', t')) (a + 256 * j) = t' (a + 256 * j)" .
    moreover have "t' (a + 256 * j) = Some (entry_of (seed_after (2 * j) seed))"
      using inner_loop_entry [OF \<open>j < 5\<close>, of seed a tbl] il by simp
    ultimately show ?thesis using st 0 by simp
  next
    case (Suc i0)
    then have "i0 < m" using Suc.prems by simp
    have "Suc a + m \<le> 256" using Suc.prems by simp
    have "10 * i + 2 * j = 10 + (10 * i0 + 2 * j)" using Suc by simp
    then have e: "seed_after (10 * i + 2 * j) seed = seed_after (10 * i0 + 2 * j) s'"
      unfolding s' by (simp only: seed_after_add)
    from Suc.IH [OF \<open>i0 < m\<close> \<open>j < 5\<close> \<open>Suc a + m \<le> 256\<close>, of s' t']
    show ?thesis using st e Suc by simp
  qed
qed

text \<open>
  The table has exactly the keys \<open>0 .. 1279\<close>; the entry at \<open>i + 256 * j\<close> is the one
  written in row \<open>i\<close> at the \<open>j\<close>-th pass of the inner loop.
\<close>

lemma encryption_table_lookup:
  assumes "k < 1280"
  shows "encryption_table k
           = Some (entry_of (seed_after (2 * (k div 256)) (row_seed (k mod 256))))"
proof -
  have "k mod 256 < 256" "k div 256 < 5" using assms by auto
  from outer_loop_entry [OF this, of 0 "0x00100001" Map.empty] show ?thesis
    by (simp add: encryption_table_def prepare_encryption_table_def row_seed_def seed_after_add)
qed

lemma encryption_table_none:
  assumes "k \<ge> 1280"
  shows "encryption_table k = None"
proof -
  have "\<forall>i<256. \<forall>j<5. k \<noteq> (0 + i) + 256 * j" using assms by auto
  from outer_loop_other [OF this, of "0x00100001" Map.empty] show ?thesis
    by (simp add: encryption_table_def prepare_encryption_table_def)
qed

subsection \<open>Seeds at the rows that the proofs evaluate\<close>

lemma row_seed_add: "row_seed (i + d) = seed_after (10 * d) (row_seed i)"
  by (simp add: row_seed_def distrib_left seed_after_add)

lemma row_seed_00: "row_seed 0 = 0x00100001"
  by (simp add: row_seed_def)

lemma row_seed_01: "row_seed (Suc 0) = 0x28A698"
  unfolding row_seed_def by code_simp

lemma row_seed_11: "row_seed 0x11 = 0x1E86E4"
proof -
  have "row_seed (Suc 0 + 16) = seed_after (10 * 16) (row_seed (Suc 0))"
    by (rule row_seed_add)
  also have "\<dots> = 0x1E86E4"
    unfolding row_seed_01 by code_simp
  finally show ?thesis by simp
qed

lemma row_seed_20: "row_seed 0x20 = 0x00FFC1"
proof -
  have "row_seed (0x11 + 15) = seed_after (10 * 15) (row_seed 0x11)"
    by (rule row_seed_add)
  also have "\<dots> = 0x00FFC1"
    unfolding row_seed_11 by code_simp
  finally show ?thesis by simp
qed

lemma row_seed_28: "row_seed 0x28 = 0x1BD284"
proof -
  have "row_seed (0x20 + 8) = seed_after (10 * 8) (row_seed 0x20)"
    by (rule row_seed_add)
  also have "\<dots> = 0x1BD284"
    unfolding row_seed_20 by code_simp
  finally show ?thesis by simp
qed

lemma row_seed_29: "row_seed 0x29 = 0x0A0226"
proof -
  have "row_seed (0x28 + 1) = seed_after (10 * 1) (row_seed 0x28)"
    by (rule row_seed_add)
  also have "\<dots> = 0x0A0226"
    unfolding row_seed_28 by code_simp
  finally show ?thesis by simp
qed

lemma row_seed_2E: "row_seed 0x2E = 0x07B4D0"
proof -
  have "row_seed (0x29 + 5) = seed_after (10 * 5) (row_seed 0x29)"
    by (rule row_seed_add)
  also have "\<dots> = 0x07B4D0"
    unfolding row_seed_29 by code_simp
  finally show ?thesis by simp
qed

lemma row_seed_33: "row_seed 0x33 = 0x0B829F"
proof -
  have "row_seed (0x2E + 5) = seed_after (10 * 5) (row_seed 0x2E)"
    by (rule row_seed_add)
  also have "\<dots> = 0x0B829F"
    unfolding row_seed_2E by code_simp
  finally show ?thesis by simp
qed

lemma row_seed_41: "row_seed 0x41 = 0x02D231"
proof -
  have "row_seed (0x33 + 14) = seed_after (10 * 14) (row_seed 0x33)"
    by (rule row_seed_add)
  also have "\<dots> = 0x02D231"
    unfolding row_seed_33 by code_simp
  finally show ?thesis by simp
qed

lemma row_seed_42: "row_seed 0x42 = 0x24BC0C"
proof -
  have "row_seed (0x41 + 1) = seed_after (10 * 1) (row_seed 0x41)"
    by (rule row_seed_add)
  also have "\<dots> = 0x24BC0C"
    unfolding row_seed_41 by code_simp
  finally show ?thesis by simp
qed

lemma row_seed_43: "row_seed 0x43 = 0x0EA49B"
proof -
  have "row_seed (0x42 + 1) = seed_after (10 * 1) (row_seed 0x42)"
    by (rule row_seed_add)
  also have "\<dots> = 0x0EA49B"
    unfolding row_seed_42 by code_simp
  finally show ?thesis by simp
qed

lemma row_seed_45: "row_seed 0x45 = 0x2891B2"
proof -
  have "row_seed (0x43 + 2) = seed_after (10 * 2) (row_seed 0x43)"
    by (rule row_seed_add)
  also have "\<dots> = 0x2891B2"
    unfolding row_seed_43 by code_simp
  finally show ?thesis by simp
qed

lemma row_seed_46: "row_seed 0x46 = 0x06ABCD"
proof -
  have "row_seed (0x45 + 1) = seed_after (10 * 1) (row_seed 0x45)"
    by (rule row_seed_add)
  also have "\<dots> = 0x06ABCD"
    unfolding row_seed_45 by code_simp
  finally show ?thesis by simp
qed

lemma row_seed_48: "row_seed 0x48 = 0x192DF8"
proof -
  have "row_seed (0x46 + 2) = seed_after (10 * 2) (row_seed 0x46)"
    by (rule row_seed_add)
  also have "\<dots> = 0x192DF8"
    unfolding row_seed_46 by code_simp
  finally show ?thesis by simp
qed

lemma row_seed_49: "row_seed 0x49 = 0x1D6BC7"
proof -
  have "row_seed (0x48 + 1) = seed_after (10 * 1) (row_seed 0x48)"
    by (rule row_seed_add)
  also have "\<dots> = 0x1D6BC7"
    unfolding row_seed_48 by code_simp
  finally show ?thesis by simp
qed

lemma row_seed_4B: "row_seed 0x4B = 0x166EE2"
proof -
  have "row_seed (0x49 + 2) = seed_after (10 * 2) (row_seed 0x49)"
    by (rule row_seed_add)
  also have "\<dots> = 0x166EE2"
    unfolding row_seed_49 by code_simp
  finally show ?thesis by simp
qed

lemma row_seed_4C: "row_seed 0x4C = 0x098E16"
proof -
  have "row_seed (0x4B + 1) = seed_after (10 * 1) (row_seed 0x4B)"
    by (rule row_seed_add)
  also have "\<dots> = 0x098E16"
    unfolding row_seed_4B by code_simp
  finally show ?thesis by simp
qed

lemma row_seed_4D: "row_seed 0x4D = 0x2773FD"
proof -
  have "row_seed (0x4C + 1) = seed_after (10 * 1) (row_seed 0x4C)"
    by (rule row_seed_add)
  also have "\<dots> = 0x2773FD"
    unfolding row_seed_4C by code_simp
  finally show ?thesis by simp
qed

lemma row_seed_4F: "row_seed 0x4F = 0x18A2FC"
proof -
  have "row_seed (0x4D + 2) = seed_after (10 * 2) (row_seed 0x4D)"
    by (rule row_seed_add)
  also have "\<dots> = 0x18A2FC"
    unfolding row_seed_4D by code_simp
  finally show ?thesis by simp
qed

lemma row_seed_50: "row_seed 0x50 = 0x209EA3"
proof -
  have "row_seed (0x4F + 1) = seed_after (10 * 1) (row_seed 0x4F)"
    by (rule row_seed_add)
  also have "\<dots> = 0x209EA3"
    unfolding row_seed_4F by code_simp
  finally show ?thesis by simp
qed

lemma row_seed_52: "row_seed 0x52 = 0x10234A"
proof -
  have "row_seed (0x50 + 2) = seed_after (10 * 2) (row_seed 0x50)"
    by (rule row_seed_add)
  also have "\<dots> = 0x10234A"
    unfolding row_seed_50 by code_simp
  finally show ?thesis by simp
qed

lemma row_seed_53: "row_seed 0x53 = 0x0E35BC"
proof -
  have "row_seed (0x52 + 1) = seed_after (10 * 1) (row_seed 0x52)"
    by (rule row_seed_add)
  also have "\<dots> = 0x0E35BC"
    unfolding row_seed_52 by code_simp
  finally show ?thesis by simp
qed

lemma row_seed_54: "row_seed 0x54 = 0x21FCB1"
proof -
  have "row_seed (0x53 + 1) = seed_after (10 * 1) (row_seed 0x53)"
    by (rule row_seed_add)
  also have "\<dots> = 0x21FCB1"
    unfolding row_seed_53 by code_simp
  finally show ?thesis by simp
qed

lemma row_seed_57: "row_seed 0x57 = 0x00EBBC"
proof -
  have "row_seed (0x54 + 3) = seed_after (10 * 3) (row_seed 0x54)"
    by (rule row_seed_add)
  also have "\<dots> = 0x00EBBC"
    unfolding row_seed_54 by code_simp
  finally show ?thesis by simp
qed

lemmas row_seeds = row_seed_20 row_seed_28 row_seed_29 row_seed_2E row_seed_33 row_seed_41
  row_seed_42 row_seed_43 row_seed_45 row_seed_46 row_seed_48 row_seed_49 row_seed_4B
  row_seed_4C row_seed_4D row_seed_4F row_seed_50 row_seed_52 row_seed_53 row_seed_54
  row_seed_57

subsection \<open>Golden values of the table\<close>

text \<open>
  Claim C1, as stated: after building, the entry at index 0 equals \<open>0x55C636E2\<close> and the
  entry at index 1 equals \<open>0x9E07D98C\<close>. The generator does not produce the second value:
  the conjunction is false.
\<close>

theorem crypt_table_golden_counterexample:
  "\<not> (encryption_table 0 = Some 0x55C636E2 \<and> encryption_table 1 = Some 0x9E07D98C)"
  by (simp add: encryption_table_lookup row_seed_00 row_seed_01 entry_of_def next_seed_def)

text \<open>
  Claim C1, amended: the table is a fixed value (a constant of the theory, built by the two
  loops from the seed \<open>0x00100001\<close>); its entry at index 0 is \<open>0x55C636E2\<close> and its entry
  at index 1 is \<open>0x02BE0170\<close>.
\<close>

theorem crypt_table_golden:
  "encryption_table 0 = Some 0x55C636E2 \<and> encryption_table 1 = Some 0x02BE0170"
  by (simp add: encryption_table_lookup row_seed_00 row_seed_01 entry_of_def next_seed_def)

section \<open>The hash function\<close>

text \<open>One pass of the loop of \<open>hash_loop\<close>, with the local variables substituted.\<close>

lemma hash_loop_step:
  "hash_loop (ch # rest) p (s1, s2) =
     (case encryption_table (push_bit 8 (hash_types p) + ch) of
        None \<Rightarrow> Inl KeyError
      | Some v \<Rightarrow>
          hash_loop rest p
            ((v XOR (s1 + s2)) AND 0xFFFFFFFF,
             (int ch + ((v XOR (s1 + s2)) AND 0xFFFFFFFF) + s2 + push_bit 5 s2 + 3)
               AND 0xFFFFFFFF))"
  by (simp add: Let_def split: option.split)

subsection \<open>ASCII and bytes\<close>

lemma ascii_upper_less: "c < 0x80 \<Longrightarrow> ascii_upper c < 0x80"
  by (auto simp: ascii_upper_def)

lemma ascii_lower_less: "c < 0x80 \<Longrightarrow> ascii_lower c < 0x80"
  by (auto simp: ascii_lower_def)

lemma ascii_upper_upper: "ascii_upper (ascii_upper c) = ascii_upper c"
  by (auto simp: ascii_upper_def)

lemma ascii_upper_lower: "ascii_upper (ascii_lower c) = ascii_upper c"
  by (auto simp: ascii_upper_def ascii_lower_def)

lemma str_upper_ascii:
  "list_all (\<lambda>c. c < 0x80) s \<Longrightarrow> str_upper cs s = map ascii_upper s"
  by (induction s) (simp_all add: str_upper_def)

lemma str_lower_ascii:
  assumes "list_all (\<lambda>c. c < 0x80) s"
  shows "str_lower cs s = map ascii_lower s"
proof -
  have a: "\<forall>i < length s. s ! i < 0x80" using assms by (simp add: list_all_length)
  have m: "map (\<lambda>i. if s ! i < 0x80 then [ascii_lower (s ! i)] else lower_full cs s i)
             [0..<length s]
          = map (\<lambda>i. [ascii_lower (s ! i)]) [0..<length s]"
    using a by simp
  have "str_lower cs s = concat (map (\<lambda>i. [ascii_lower (s ! i)]) [0..<length s])"
    unfolding str_lower_def by (simp only: m)
  also have "\<dots> = map (\<lambda>i. ascii_lower (s ! i)) [0..<length s]"
    by simp
  also have "\<dots> = map ascii_lower (map (\<lambda>i. s ! i) [0..<length s])"
    by (simp add: comp_def del: map_nth)
  also have "\<dots> = map ascii_lower s"
    by (simp only: map_nth)
  finally show ?thesis .
qed

lemma list_all_ascii_upper:
  "list_all (\<lambda>c. c < 0x80) s \<Longrightarrow> list_all (\<lambda>c. c < 0x80) (map ascii_upper s)"
  by (induction s) (simp_all add: ascii_upper_less)

lemma list_all_ascii_lower:
  "list_all (\<lambda>c. c < 0x80) s \<Longrightarrow> list_all (\<lambda>c. c < 0x80) (map ascii_lower s)"
  by (induction s) (simp_all add: ascii_lower_less)

lemma unat_byte: "unat (x :: u8) < 256"
  using unsigned_less [of x, where 'a = nat] by simp

lemma ascii_upper_byte: "ascii_upper (unat (x :: u8)) < 256"
  using unat_byte [of x] by (auto simp: ascii_upper_def)

lemma ascii_lower_byte: "ascii_lower (unat (x :: u8)) < 256"
  using unat_byte [of x] by (auto simp: ascii_lower_def)

lemma unat_byte_upper:
  "unat (of_nat (ascii_upper (unat (x :: u8))) :: u8) = ascii_upper (unat x)"
  using ascii_upper_byte [of x] by (simp add: unat_of_nat)

lemma unat_byte_lower:
  "unat (of_nat (ascii_lower (unat (x :: u8))) :: u8) = ascii_lower (unat x)"
  using ascii_lower_byte [of x] by (simp add: unat_of_nat)

lemma ords_bytes_upper: "ords (upper cs (Bytes b)) = map (\<lambda>x. ascii_upper (unat x)) b"
  by (simp add: bytes_upper_def unat_byte_upper comp_def)

subsection \<open>When the hasher returns\<close>

lemma hash_loop_total:
  "(\<forall>ch \<in> set chs. ch < 256) \<Longrightarrow> \<exists>v. hash_loop chs p (s1, s2) = Inr v"
proof (induction chs arbitrary: s1 s2)
  case Nil
  show ?case by simp
next
  case (Cons ch rest)
  have "hash_types p < 5" by (cases p) simp_all
  moreover have "ch < 256" using Cons.prems by simp
  ultimately have "push_bit 8 (hash_types p) + ch < 1280" by (simp add: push_bit_eq_mult)
  from encryption_table_lookup [OF this]
  obtain v where v: "encryption_table (push_bit 8 (hash_types p) + ch) = Some v" by blast
  have "\<forall>ch \<in> set rest. ch < 256" using Cons.prems by simp
  from Cons.IH [OF this] show ?case by (simp add: hash_loop_step v del: hash_loop.simps(2))
qed

lemma hash_total_bytes: "\<exists>v. hash cs (Bytes b) p = Inr v"
proof -
  have "\<forall>ch \<in> set (map (\<lambda>x. ascii_upper (unat x)) b). ch < 256"
    by (auto simp: ascii_upper_byte)
  from hash_loop_total [OF this] show ?thesis
    unfolding hash_def ords_bytes_upper by blast
qed

lemma hash_total_ascii:
  assumes "list_all (\<lambda>c. c < 0x80) s"
  shows "\<exists>v. hash cs (Str s) p = Inr v"
proof -
  have "list_all (\<lambda>c. c < 0x80) (map ascii_upper s)"
    using assms by (rule list_all_ascii_upper)
  then have "\<forall>ch \<in> set (map ascii_upper s). ch < 256"
    by (auto simp: list_all_iff)
  from hash_loop_total [OF this] show ?thesis
    by (simp add: hash_def str_upper_ascii [OF assms])
qed

text \<open>
  A character outside ASCII can leave the table: with Python's tables the micro sign
  U+00B5 becomes U+039C, and the index for the purpose \<open>TABLE\<close> is \<open>0x300 + 0x39C\<close>.
\<close>

lemma hash_micro_sign:
  "upper_full cs 0xB5 = [0x39C] \<Longrightarrow> hash cs (Str [0xB5]) TABLE = Inl KeyError"
  by (simp add: hash_def str_upper_def hash_loop_step encryption_table_none
        del: hash_loop.simps(2))

subsection \<open>Golden values\<close>

lemmas hash_eval = hash_def py_str_def str_upper_def ascii_upper_def
  hash_loop_step encryption_table_lookup row_seeds seed_after_numeral entry_of_def next_seed_def

lemma hash_listfile_A: "hash cs (py_str ''(listfile)'') HASH_A = Inr 0xFD657910"
  by (simp add: hash_eval del: hash_loop.simps(2))

lemma hash_listfile_B: "hash cs (py_str ''(listfile)'') HASH_B = Inr 0x4E9B98A7"
  by (simp add: hash_eval del: hash_loop.simps(2))

lemma hash_hash_table: "hash cs (py_str ''(hash table)'') TABLE = Inr 0xC3AF3770"
  by (simp add: hash_eval del: hash_loop.simps(2))

lemma hash_block_table: "hash cs (py_str ''(block table)'') TABLE = Inr 0xEC83B3A3"
  by (simp add: hash_eval del: hash_loop.simps(2))

lemma hash_war3map_wts: "hash cs (py_str ''war3map.wts'') TABLE = Inr 0xC52E83DD"
  by (simp add: hash_eval del: hash_loop.simps(2))

text \<open>An ASCII \<^verbatim>\<open>bytes\<close> literal hashes as the \<^verbatim>\<open>str\<close> literal with the same characters.\<close>

lemma unat_of_char: "unat (of_char c :: u8) = (of_char c :: nat)"
proof -
  have "(of_char c :: nat) < 256" by simp
  then have "unat (of_nat (of_char c) :: u8) = of_char c" by (simp add: unat_of_nat)
  then show ?thesis by (simp add: of_nat_of_char)
qed

lemma hash_py_bytes:
  assumes "list_all (\<lambda>c. (of_char c :: nat) < 0x80) s"
  shows "hash cs (py_bytes s) p = hash cs (py_str s) p"
proof -
  have a: "list_all (\<lambda>c. c < 0x80) (map of_char s :: nat list)"
    using assms by (simp add: list_all_iff)
  have "ords (upper cs (py_bytes s)) = map (\<lambda>c. ascii_upper (of_char c)) s"
    unfolding py_bytes_def ords_bytes_upper by (simp add: unat_of_char comp_def)
  moreover have "ords (upper cs (py_str s)) = map (\<lambda>c. ascii_upper (of_char c)) s"
    by (simp add: py_str_def str_upper_ascii [OF a] comp_def)
  ultimately show ?thesis by (simp add: hash_def)
qed

text \<open>
  Claim C2: the hasher produces the golden values: \<^verbatim>\<open>"(listfile)"\<close> hashes to
  \<open>0xFD657910\<close> with \<open>HASH_A\<close> and to \<open>0x4E9B98A7\<close> with \<open>HASH_B\<close>;
  \<^verbatim>\<open>"(hash table)"\<close> and \<^verbatim>\<open>"(block table)"\<close> hash to \<open>0xC3AF3770\<close> and
  \<open>0xEC83B3A3\<close> with \<open>TABLE\<close>. Each call returns, without \<^verbatim>\<open>KeyError\<close>, and the
  \<^verbatim>\<open>bytes\<close> literals hash as the \<^verbatim>\<open>str\<close> literals do.
\<close>

theorem hash_golden:
  "hash cs (py_str ''(listfile)'') HASH_A = Inr 0xFD657910
   \<and> hash cs (py_str ''(listfile)'') HASH_B = Inr 0x4E9B98A7
   \<and> hash cs (py_str ''(hash table)'') TABLE = Inr 0xC3AF3770
   \<and> hash cs (py_str ''(block table)'') TABLE = Inr 0xEC83B3A3
   \<and> hash cs (py_bytes ''(listfile)'') HASH_A = Inr 0xFD657910
   \<and> hash cs (py_bytes ''(listfile)'') HASH_B = Inr 0x4E9B98A7
   \<and> hash cs (py_bytes ''(hash table)'') TABLE = Inr 0xC3AF3770
   \<and> hash cs (py_bytes ''(block table)'') TABLE = Inr 0xEC83B3A3"
  using hash_listfile_A hash_listfile_B hash_hash_table hash_block_table
  by (simp add: hash_py_bytes)

text \<open>
  Claim C10: for the empty string the loop body never runs, and the hasher returns its
  initial state \<open>0x7FED7FED\<close>, whatever the purpose \<open>p\<close> (one of the five), for the empty
  \<^verbatim>\<open>str\<close> and for the empty \<^verbatim>\<open>bytes\<close>.
\<close>

theorem hash_empty:
  "hash cs (Str []) p = Inr 0x7FED7FED \<and> hash cs (Bytes []) p = Inr 0x7FED7FED"
  by (simp add: hash_def str_upper_def bytes_upper_def)

subsection \<open>Case\<close>

lemma upper_upper_ascii:
  assumes "list_all (\<lambda>c. c < 0x80) s"
  shows "ords (upper cs (upper cs (Str s))) = map ascii_upper s"
  using assms list_all_ascii_upper [OF assms]
  by (simp add: str_upper_ascii ascii_upper_upper comp_def)

lemma upper_lower_ascii:
  assumes "list_all (\<lambda>c. c < 0x80) s"
  shows "ords (upper cs (lower cs (Str s))) = map ascii_upper s"
  using assms list_all_ascii_lower [OF assms]
  by (simp add: str_upper_ascii str_lower_ascii ascii_upper_lower comp_def)

lemma bytes_upper_upper: "bytes_upper (bytes_upper b) = bytes_upper b"
  by (simp add: bytes_upper_def unat_byte_upper ascii_upper_upper comp_def)

lemma bytes_upper_lower: "bytes_upper (bytes_lower b) = bytes_upper b"
  by (simp add: bytes_upper_def bytes_lower_def unat_byte_lower ascii_upper_lower comp_def)

lemma kelvin_upper:
  "upper \<lparr>upper_full = (\<lambda>c. [c]),
          lower_full = (\<lambda>s i. if s ! i = 0x212A then [0x6B] else [s ! i])\<rparr> (Str [0x212A])
     = Str [0x212A]"
  by (simp add: str_upper_def)

lemma kelvin_lower:
  "lower \<lparr>upper_full = (\<lambda>c. [c]),
          lower_full = (\<lambda>s i. if s ! i = 0x212A then [0x6B] else [s ! i])\<rparr> (Str [0x212A])
     = Str [0x6B]"
  by (simp add: str_lower_def)

lemma hash_kelvin: "upper_full cs 0x212A = [0x212A] \<Longrightarrow> hash cs (Str [0x212A]) HASH_A = Inl KeyError"
  by (simp add: hash_def str_upper_def hash_loop_step encryption_table_none
        del: hash_loop.simps(2))

lemma hash_k: "hash cs (Str [0x6B]) HASH_A = Inr 0xE32A3FC9"
  by (simp add: hash_def str_upper_def ascii_upper_def hash_loop_step
        encryption_table_lookup row_seed_4B seed_after_numeral entry_of_def next_seed_def
        del: hash_loop.simps(2))

text \<open>
  Claim C8, as stated: for every name and every purpose, the hash of the upper-cased name
  equals the hash of the lower-cased name. Python maps the Kelvin sign U+212A to itself
  under \<^verbatim>\<open>upper()\<close> and to \<^verbatim>\<open>k\<close> (0x6B) under \<^verbatim>\<open>lower()\<close>. With a case mapping that
  does so, and the purpose \<open>HASH_A\<close>, the hasher raises \<^verbatim>\<open>KeyError\<close> on the upper-cased
  name (the index \<open>0x100 + 0x212A\<close> is not in the table) and returns the hash of \<^verbatim>\<open>k\<close>
  on the lower-cased one.
\<close>

theorem hash_case_counterexample:
  "hash \<lparr>upper_full = (\<lambda>c. [c]),
         lower_full = (\<lambda>s i. if s ! i = 0x212A then [0x6B] else [s ! i])\<rparr>
     (upper \<lparr>upper_full = (\<lambda>c. [c]),
             lower_full = (\<lambda>s i. if s ! i = 0x212A then [0x6B] else [s ! i])\<rparr>
        (Str [0x212A]))
     HASH_A
   = Inl KeyError
   \<and> hash \<lparr>upper_full = (\<lambda>c. [c]),
           lower_full = (\<lambda>s i. if s ! i = 0x212A then [0x6B] else [s ! i])\<rparr>
       (lower \<lparr>upper_full = (\<lambda>c. [c]),
               lower_full = (\<lambda>s i. if s ! i = 0x212A then [0x6B] else [s ! i])\<rparr>
          (Str [0x212A]))
       HASH_A
     = Inr 0xE32A3FC9"
  unfolding kelvin_upper kelvin_lower by (simp add: hash_kelvin hash_k)

text \<open>
  Claim C8, amended: for every name that is a \<^verbatim>\<open>str\<close> of ASCII characters or a
  \<^verbatim>\<open>bytes\<close> object, and every purpose \<open>p\<close>, the hash of the upper-cased name equals the
  hash of the lower-cased name.
\<close>

theorem hash_case_insensitive:
  "(list_all (\<lambda>c. c < 0x80) s \<longrightarrow>
      hash cs (upper cs (Str s)) p = hash cs (lower cs (Str s)) p)
   \<and> hash cs (upper cs (Bytes b)) p = hash cs (lower cs (Bytes b)) p"
proof -
  have "hash cs (upper cs (Str s)) p = hash cs (lower cs (Str s)) p"
    if "list_all (\<lambda>c. c < 0x80) s"
    unfolding hash_def upper_upper_ascii [OF that] upper_lower_ascii [OF that] ..
  moreover have "hash cs (upper cs (Bytes b)) p = hash cs (lower cs (Bytes b)) p"
    by (simp add: hash_def bytes_upper_upper bytes_upper_lower)
  ultimately show ?thesis by blast
qed

theorem hash_case_insensitive_witness:
  "list_all (\<lambda>c. c < 0x80) [0x57, 0x61, 0x72, 0x33, 0x4D, 0x61, 0x70, 0x2E, 0x6A :: nat]
   \<and> hash \<lparr>upper_full = (\<lambda>c. [c]), lower_full = (\<lambda>s i. [s ! i])\<rparr>
       (upper \<lparr>upper_full = (\<lambda>c. [c]), lower_full = (\<lambda>s i. [s ! i])\<rparr>
          (Str [0x57, 0x61, 0x72, 0x33, 0x4D, 0x61, 0x70, 0x2E, 0x6A]))
       HASH_A
     = hash \<lparr>upper_full = (\<lambda>c. [c]), lower_full = (\<lambda>s i. [s ! i])\<rparr>
         (lower \<lparr>upper_full = (\<lambda>c. [c]), lower_full = (\<lambda>s i. [s ! i])\<rparr>
            (Str [0x57, 0x61, 0x72, 0x33, 0x4D, 0x61, 0x70, 0x2E, 0x6A]))
         HASH_A"
proof -
  have h: "list_all (\<lambda>c. c < 0x80) [0x57, 0x61, 0x72, 0x33, 0x4D, 0x61, 0x70, 0x2E, 0x6A :: nat]"
    by simp
  from hash_case_insensitive
    [of "[0x57, 0x61, 0x72, 0x33, 0x4D, 0x61, 0x70, 0x2E, 0x6A]"
        "\<lparr>upper_full = (\<lambda>c. [c]), lower_full = (\<lambda>s i. [s ! i])\<rparr>" HASH_A]
  show ?thesis using h by blast
qed

section \<open>The cipher\<close>

subsection \<open>The loop never raises\<close>

lemma mask_byte_index: "nat (0x400 + (s AND 0xFF)) < 1280" for s :: int
proof -
  have "0 \<le> s AND 0xFF" by simp
  moreover have "s AND 0xFF \<le> 0xFF" by (rule AND_upper2) simp
  ultimately show ?thesis by linarith
qed

lemma pack_I_masked: "\<exists>b0 b1 b2 b3. pack_I (v AND 0xFFFFFFFF) = Inr [b0, b1, b2, b3]"
proof -
  have "0 \<le> v AND 0xFFFFFFFF" by simp
  moreover have "v AND 0xFFFFFFFF \<le> 0xFFFFFFFF" by (rule AND_upper2) simp
  ultimately show ?thesis by (simp add: pack_I_def)
qed

lemma pyslice_word: "4 * i + 4 \<le> length data \<Longrightarrow> length (pyslice data (i * 4) (i * 4 + 4)) = 4"
  by (simp add: pyslice_def)

text \<open>One pass of the loop of \<open>decrypt_loop\<close> in the case where nothing raises.\<close>

lemma decrypt_loop_step:
  assumes "4 * i + 4 \<le> length data"
  shows "\<exists>s1' s2' packed. length packed = 4 \<and>
           decrypt_loop data (i # rest) (s1, s2, res)
             = decrypt_loop data rest (s1', s2', res @ packed)"
proof -
  obtain t where t: "encryption_table (nat (0x400 + (s1 AND 0xFF))) = Some t"
    using encryption_table_lookup [OF mask_byte_index [of s1]] by blast
  define w where "w = le_value (pyslice (pyslice data (i * 4) (i * 4 + 4)) 0 4)"
  have u: "unpack_I 1 (pyslice data (i * 4) (i * 4 + 4)) = Inr [w]"
    using pyslice_word [OF assms] by (simp add: unpack_I_def w_def)
  obtain b0 b1 b2 b3
    where p: "pack_I ((w XOR (s1 + ((s2 + t) AND 0xFFFFFFFF))) AND 0xFFFFFFFF)
                = Inr [b0, b1, b2, b3]"
    using pack_I_masked by blast
  have "\<exists>s1' s2'. decrypt_loop data (i # rest) (s1, s2, res)
          = decrypt_loop data rest (s1', s2', res @ [b0, b1, b2, b3])"
    using t u p by (simp add: Let_def) blast
  then obtain s1' s2' where "decrypt_loop data (i # rest) (s1, s2, res)
          = decrypt_loop data rest (s1', s2', res @ [b0, b1, b2, b3])" by blast
  moreover have "length [b0, b1, b2, b3] = 4" by simp
  ultimately show ?thesis by blast
qed

lemma decrypt_loop_total:
  "(\<forall>i \<in> set is. 4 * i + 4 \<le> length data) \<Longrightarrow>
     \<exists>out. decrypt_loop data is (s1, s2, res) = Inr out \<and> length out = length res + 4 * length is"
proof (induction "is" arbitrary: s1 s2 res)
  case Nil
  then show ?case by simp
next
  case (Cons i rest)
  then have "4 * i + 4 \<le> length data" by simp
  from decrypt_loop_step [OF this, of rest s1 s2 res]
  obtain s1' s2' packed where l: "length packed = 4"
    and e: "decrypt_loop data (i # rest) (s1, s2, res) = decrypt_loop data rest (s1', s2', res @ packed)"
    by blast
  have "\<forall>i \<in> set rest. 4 * i + 4 \<le> length data" using Cons.prems by simp
  from Cons.IH [OF this, of s1' s2' "res @ packed"] show ?case
    unfolding e using l by auto
qed

lemma decrypt_total:
  "\<exists>out. decrypt data key = Inr out \<and> length out = 4 * (length data div 4)"
proof -
  have "\<forall>i \<in> set [0..<length data div 4]. 4 * i + 4 \<le> length data" by auto
  from decrypt_loop_total [OF this, of key "0xEEEEEEEE" "[]"] show ?thesis
    by (simp add: decrypt_def)
qed




subsection \<open>Buffers whose length is not a multiple of four\<close>



section \<open>The file key\<close>

text \<open>The value that \<open>get_file_key\<close> returns for a block with \<open>MPQ_FILE_FIX_KEY\<close>.\<close>

lemma get_file_key_fix_key:
  assumes "flags block_entry AND MPQ_FILE_FIX_KEY \<noteq> 0"
    and "hash cs (Str (basename (replace_backslash s))) TABLE = Inr raw_key"
  shows "get_file_key cs self (Str s) block_entry True
           = Inr ((raw_key + (uint (offset block_entry) - uint (hdr_offset (header self))))
                    XOR uint (size_orig block_entry))"
  using assms by (simp add: get_file_key_def Let_def)

lemma get_file_key_bytes: "get_file_key cs self (Bytes b) block_entry True = Inl TypeError"
  by (simp add: get_file_key_def)

text \<open>
  The cipher reads the bits of its key above the 32nd (through \<open>seed1 >> 0x0B\<close> in the
  first pass of its loop): two keys that agree modulo \<open>2 ^ 32\<close> can decrypt the second
  word of a buffer differently.
\<close>

lemma decrypt_key_high_bits:
  "decrypt [1, 2, 3, 4, 5, 6, 7, 8] 0x000000001 = Inr [197, 228, 134, 71, 183, 224, 235, 31]
   \<and> decrypt [1, 2, 3, 4, 5, 6, 7, 8] 0x100000001 = Inr [197, 228, 134, 71, 183, 224, 11, 16]"
  by (simp add: decrypt_def encryption_table_lookup row_seed_01 row_seed_11 seed_after_numeral
        entry_of_def next_seed_def unpack_I_def pack_I_def pyslice_def Let_def upt_rec)

lemma basename_war3map_wts:
  "Str (basename (replace_backslash (map of_char ''war3map.wts''))) = py_str ''war3map.wts''"
  by (simp add: py_str_def replace_backslash_def basename_def)

text \<open>
  Claim C3: for a block with \<open>MPQ_FILE_FIX_KEY\<close> the key is \<open>(raw_key + offset) XOR size\<close>
  in 32-bit arithmetic, \<open>offset\<close> being the offset field of the block entry. The code
  does not compute this. For the name \<^verbatim>\<open>war3map.wts\<close> (raw key \<open>0xC52E83DD\<close>) and a
  block of size \<open>0x10\<close>: in an archive whose header is at 0, with the block at offset
  \<open>0x40000000\<close>, the code returns \<open>0x1052E83CD\<close>, which is not a 32-bit value, where the
  claim gives \<open>0x052E83CD\<close>; in an archive whose header is at \<open>0x400\<close>, with the block at
  offset \<open>0x1000\<close>, the code returns \<open>0xC52E8FCD\<close> where the claim gives \<open>0xC52E93CD\<close>.
\<close>

theorem file_key_fix_key_failing_input:
  "hash cs (py_str ''war3map.wts'') TABLE = Inr 0xC52E83DD
   \<and> get_file_key cs
         \<lparr>file_h = \<lparr>content = [], pos = 0\<rparr>,
          header = \<lparr>sector_size_shift = 3, hash_table_offset = 0, block_table_offset = 0,
                    hash_table_entries = 0, block_table_entries = 0, hdr_offset = 0\<rparr>,
          hash_table = [], block_table = [], files = None\<rparr>
         (py_str ''war3map.wts'')
         \<lparr>offset = 0x40000000, archived_size = 0x20, size_orig = 0x10, flags = 0x80030000\<rparr>
         True
       = Inr 0x1052E83CD
   \<and> uint (((0xC52E83DD :: u32) + 0x40000000) XOR 0x10) = 0x052E83CD
   \<and> get_file_key cs
         \<lparr>file_h = \<lparr>content = [], pos = 0\<rparr>,
          header = \<lparr>sector_size_shift = 3, hash_table_offset = 0, block_table_offset = 0,
                    hash_table_entries = 0, block_table_entries = 0, hdr_offset = 0x400\<rparr>,
          hash_table = [], block_table = [], files = None\<rparr>
         (py_str ''war3map.wts'')
         \<lparr>offset = 0x1000, archived_size = 0x20, size_orig = 0x10, flags = 0x80030000\<rparr>
         True
       = Inr 0xC52E8FCD
   \<and> uint (((0xC52E83DD :: u32) + 0x1000) XOR 0x10) = 0xC52E93CD"
proof -
  have f: "flags \<lparr>offset = x, archived_size = 0x20, size_orig = 0x10, flags = 0x80030000\<rparr>
             AND MPQ_FILE_FIX_KEY \<noteq> 0" for x
    by (simp add: MPQ_FILE_FIX_KEY_def)
  have r: "hash cs (Str (basename (replace_backslash (map of_char ''war3map.wts'')))) TABLE
             = Inr 0xC52E83DD"
    unfolding basename_war3map_wts by (rule hash_war3map_wts)
  have a: "get_file_key cs self (py_str ''war3map.wts'')
             \<lparr>offset = x, archived_size = 0x20, size_orig = 0x10, flags = 0x80030000\<rparr> True
           = Inr ((0xC52E83DD + (uint x - uint (hdr_offset (header self)))) XOR 0x10)"
    for self x
    using get_file_key_fix_key [OF f [of x] r, where self = self] by (simp add: py_str_def)
  show ?thesis
    by (simp add: a hash_war3map_wts)
qed

section \<open>The sectored reader\<close>

subsection \<open>The sector offset table\<close>

lemma sector_size_nat:
  "push_bit (unat (sector_size_shift hdr)) (512 :: int)
     = int (512 * 2 ^ unat (sector_size_shift hdr))"
  by (simp add: push_bit_eq_mult)

lemma n_offsets_nat:
  "nat (uint (size_orig block_entry) div push_bit (unat (sector_size_shift hdr)) 512 + 1 + c + 1)
     = unat (size_orig block_entry) div (512 * 2 ^ unat (sector_size_shift hdr)) + 1 + nat c + 1"
  if "0 \<le> c"
proof -
  have "uint (size_orig block_entry) div push_bit (unat (sector_size_shift hdr)) 512
          = int (unat (size_orig block_entry) div (512 * 2 ^ unat (sector_size_shift hdr)))"
    unfolding sector_size_nat by (simp add: zdiv_int)
  then show ?thesis using that by simp
qed

lemma unpack_I_Inr:
  "length tbl = 4 * n \<Longrightarrow>
     unpack_I n tbl = Inr (map (\<lambda>k. le_value (take 4 (drop (4 * k) tbl))) [0..<n])"
  by (simp add: unpack_I_def pyslice_def)

lemma unpack_I_Inl: "length tbl \<noteq> 4 * n \<Longrightarrow> unpack_I n tbl = Inl StructError"
  by (simp add: unpack_I_def)

text \<open>
  Claim C5: for a file that is not a single unit, the reader takes
  \<open>sector_size = 512 << sector_size_shift\<close> and \<open>size div sector_size + 1\<close> sectors, so
  that the sectors always cover more than \<open>size\<close> bytes (there is a slot for a partial
  tail even when \<open>size\<close> is an exact multiple), one sector more when
  \<open>MPQ_FILE_SECTOR_CRC\<close> is set, and reads \<open>sectors + 1\<close> little-endian 32-bit entries
  from the start of the blob (through the cipher when the block is encrypted). When the
  blob has those \<open>4 * (sectors + 1)\<close> bytes the call returns them; when it has not,
  \<^verbatim>\<open>struct.unpack\<close> raises.
\<close>

theorem sector_offset_table:
  fixes hdr block_entry file_data key
  defines "sector_size \<equiv> 512 * 2 ^ unat (sector_size_shift hdr)"
  defines "crc \<equiv> flags block_entry AND MPQ_FILE_SECTOR_CRC \<noteq> 0"
  defines "sectors \<equiv> unat (size_orig block_entry) div sector_size + 1 + (if crc then 1 else 0)"
  defines "encrypted \<equiv> flags block_entry AND MPQ_FILE_ENCRYPTED \<noteq> 0"
  shows "unat (size_orig block_entry) < (unat (size_orig block_entry) div sector_size + 1) * sector_size
    \<and> (4 * (sectors + 1) \<le> length file_data \<longrightarrow>
         (\<exists>tbl. length tbl = 4 * (sectors + 1)
            \<and> (if encrypted then decrypt (take (4 * (sectors + 1)) file_data) (key - 1) = Inr tbl
                else tbl = take (4 * (sectors + 1)) file_data)
            \<and> read_positions hdr block_entry file_data key
                = Inr (crc, map (\<lambda>k. le_value (take 4 (drop (4 * k) tbl))) [0..<sectors + 1])))
    \<and> (length file_data < 4 * (sectors + 1) \<longrightarrow>
         read_positions hdr block_entry file_data key = Inl StructError)"
proof -
  have ss: "0 < sector_size" by (simp add: sector_size_def)
  have tail: "unat (size_orig block_entry)
                < (unat (size_orig block_entry) div sector_size + 1) * sector_size"
    using ss by (metis Suc_eq_plus1 dividend_less_div_times mult.commute mult_Suc_right add.commute)
  define n where "n = sectors + 1"
  have n: "nat (4 * ((if crc then uint (size_orig block_entry) div push_bit (unat (sector_size_shift hdr)) 512 + 1 + 1
                      else uint (size_orig block_entry) div push_bit (unat (sector_size_shift hdr)) 512 + 1) + 1)) = 4 * n"
       "nat ((if crc then uint (size_orig block_entry) div push_bit (unat (sector_size_shift hdr)) 512 + 1 + 1
                      else uint (size_orig block_entry) div push_bit (unat (sector_size_shift hdr)) 512 + 1) + 1) = n"
    using n_offsets_nat [of 0 block_entry hdr] n_offsets_nat [of 1 block_entry hdr]
    by (auto simp: n_def sectors_def sector_size_def nat_mult_distrib)
  have rp: "read_positions hdr block_entry file_data key =
     (case (if encrypted then decrypt (take (4 * n) file_data) (key - 1) else Inr (take (4 * n) file_data)) of
           Inl e \<Rightarrow> Inl e
         | Inr offset_table \<Rightarrow>
             (case unpack_I n offset_table of
                Inl e \<Rightarrow> Inl e
              | Inr positions \<Rightarrow> Inr (crc, positions)))"
    unfolding read_positions_def Let_def crc_def [symmetric] encrypted_def [symmetric] n
    by (simp add: pyslice_def)
  have long: "\<exists>tbl. length tbl = 4 * n
            \<and> (if encrypted then decrypt (take (4 * n) file_data) (key - 1) = Inr tbl
                else tbl = take (4 * n) file_data)
            \<and> read_positions hdr block_entry file_data key
                = Inr (crc, map (\<lambda>k. le_value (take 4 (drop (4 * k) tbl))) [0..<n])"
    if "4 * n \<le> length file_data"
  proof (cases encrypted)
    case True
    obtain out where o: "decrypt (take (4 * n) file_data) (key - 1) = Inr out"
        "length out = 4 * (length (take (4 * n) file_data) div 4)"
      using decrypt_total by blast
    have "length out = 4 * n" using o(2) that by simp
    then show ?thesis using True o(1) by (simp add: rp unpack_I_Inr)
  next
    case False
    have "length (take (4 * n) file_data) = 4 * n" using that by simp
    then show ?thesis using False by (simp add: rp unpack_I_Inr del: length_take)
  qed
  have short: "read_positions hdr block_entry file_data key = Inl StructError"
    if "length file_data < 4 * n"
  proof (cases encrypted)
    case True
    obtain out where o: "decrypt (take (4 * n) file_data) (key - 1) = Inr out"
        "length out = 4 * (length (take (4 * n) file_data) div 4)"
      using decrypt_total by blast
    have "length out \<le> length file_data" using o(2) that by simp
    then have "length out \<noteq> 4 * n" using that by simp
    then show ?thesis using True o(1) by (simp add: rp unpack_I_Inl)
  next
    case False
    have "length (take (4 * n) file_data) \<noteq> 4 * n" using that by simp
    then show ?thesis using False by (simp add: rp unpack_I_Inl del: length_take)
  qed
  show ?thesis using tail long short unfolding n_def by blast
qed

theorem sector_offset_table_witness:
  "unat (8192 :: u32) < (unat (8192 :: u32) div (512 * 2 ^ unat (3 :: u16)) + 1) * (512 * 2 ^ unat (3 :: u16))
   \<and> read_positions
        \<lparr>sector_size_shift = 3, hash_table_offset = 0, block_table_offset = 0,
          hash_table_entries = 0, block_table_entries = 0, hdr_offset = 0\<rparr>
        \<lparr>offset = 0, archived_size = 24, size_orig = 8192, flags = 0x80000200\<rparr>
        [16, 0, 0, 0, 20, 0, 0, 0, 24, 1, 0, 0, 24, 1, 0, 0, 9, 9, 9, 9, 8, 8, 8, 8]
        0
      = Inr (False, [16, 20, 280, 280])
   \<and> read_positions
        \<lparr>sector_size_shift = 3, hash_table_offset = 0, block_table_offset = 0,
          hash_table_entries = 0, block_table_entries = 0, hdr_offset = 0\<rparr>
        \<lparr>offset = 0, archived_size = 24, size_orig = 8192, flags = 0x84000200\<rparr>
        [20, 0, 0, 0, 24, 0, 0, 0, 28, 1, 0, 0, 28, 1, 0, 0, 9, 9, 9, 9]
        0
      = Inr (True, [20, 24, 284, 284, 151587081])
   \<and> read_positions
        \<lparr>sector_size_shift = 3, hash_table_offset = 0, block_table_offset = 0,
          hash_table_entries = 0, block_table_entries = 0, hdr_offset = 0\<rparr>
        \<lparr>offset = 0, archived_size = 24, size_orig = 8192, flags = 0x80000200\<rparr>
        [16, 0, 0, 0, 20, 0, 0, 0, 24, 1, 0, 0]
        0
      = Inl StructError"
  using sector_offset_table
     [of "\<lparr>offset = 0, archived_size = 24, size_orig = 8192, flags = 0x80000200\<rparr>"
         "\<lparr>sector_size_shift = 3, hash_table_offset = 0, block_table_offset = 0,
           hash_table_entries = 0, block_table_entries = 0, hdr_offset = 0\<rparr>"
         "[16, 0, 0, 0, 20, 0, 0, 0, 24, 1, 0, 0, 24, 1, 0, 0, 9, 9, 9, 9, 8, 8, 8, 8]" 0]
    sector_offset_table
     [of "\<lparr>offset = 0, archived_size = 24, size_orig = 8192, flags = 0x84000200\<rparr>"
         "\<lparr>sector_size_shift = 3, hash_table_offset = 0, block_table_offset = 0,
           hash_table_entries = 0, block_table_entries = 0, hdr_offset = 0\<rparr>"
         "[20, 0, 0, 0, 24, 0, 0, 0, 28, 1, 0, 0, 28, 1, 0, 0, 9, 9, 9, 9]" 0]
    sector_offset_table
     [of "\<lparr>offset = 0, archived_size = 24, size_orig = 8192, flags = 0x80000200\<rparr>"
         "\<lparr>sector_size_shift = 3, hash_table_offset = 0, block_table_offset = 0,
           hash_table_entries = 0, block_table_entries = 0, hdr_offset = 0\<rparr>"
         "[16, 0, 0, 0, 20, 0, 0, 0, 24, 1, 0, 0]" 0]
  by (simp add: MPQ_FILE_SECTOR_CRC_def MPQ_FILE_ENCRYPTED_def upt_rec)

subsection \<open>Imploded sectors that the flags do not announce\<close>

lemma or_and_absorb: "(x OR c) AND c = c" for x c :: u32
  by (simp add: bit.conj_disj_distrib2)

text \<open>
  Claim C6: a sector whose first two bytes are \<open>0x00 0x06\<close> is treated as compressed
  whatever the flags of the block entry: the tag \<open>0x08\<close> of \<open>IMPLODE\<close> is put in front
  of it and \<open>MPQ_FILE_COMPRESS\<close> is set for this sector, so that, when decompression is
  forced or the bytes left exceed the length of the tagged sector, \<open>decompress\<close> hands the
  sector to the implode decoder; otherwise the tagged sector is written as it is.
\<close>

theorem implode_quirk:
  assumes "take 2 sector = [0x00, 0x06]"
  shows "sector_body cd force_decompress block_flags sector_bytes_left sector
           = (if force_decompress \<or> sector_bytes_left > int (length sector) + 1
              then (case ttdecomp cd of Some run \<Rightarrow> Inr (run sector) | None \<Rightarrow> Inr sector)
              else Inr (0x08 # sector))"
proof -
  have c: "(block_flags OR MPQ_FILE_COMPRESS) AND MPQ_FILE_COMPRESS \<noteq> 0"
    by (simp add: or_and_absorb) (simp add: MPQ_FILE_COMPRESS_def)
  have d: "decompress cd (0x08 # sector)
             = (case ttdecomp cd of Some run \<Rightarrow> Inr (run sector) | None \<Rightarrow> Inr sector)"
    by (simp add: decompress_def CompressionType_of_def)
  show ?thesis using assms c d by (simp add: sector_body_def)
qed

theorem implode_quirk_witness:
  "take 2 [0x00, 0x06, 0x41, 0x42 :: u8] = [0x00, 0x06]
   \<and> sector_body \<lparr>zlib_decompress = (\<lambda>d. None), bz2_decompress = (\<lambda>d. None), ttdecomp = Some rev\<rparr>
         False MPQ_FILE_EXISTS 100 [0x00, 0x06, 0x41, 0x42]
       = Inr [0x42, 0x41, 0x06, 0x00]
   \<and> sector_body \<lparr>zlib_decompress = (\<lambda>d. None), bz2_decompress = (\<lambda>d. None), ttdecomp = Some rev\<rparr>
         False MPQ_FILE_EXISTS 5 [0x00, 0x06, 0x41, 0x42]
       = Inr [0x08, 0x00, 0x06, 0x41, 0x42]"
proof -
  have h: "take 2 [0x00, 0x06, 0x41, 0x42 :: u8] = [0x00, 0x06]" by simp
  show ?thesis
    using h implode_quirk [OF h, of _ False MPQ_FILE_EXISTS 100]
      implode_quirk [OF h, of _ False MPQ_FILE_EXISTS 5]
    by simp
qed

section \<open>Reading and extracting\<close>

subsection \<open>The value for a file that is not there\<close>

lemma get_hash_table_entry_returns:
  assumes "hash cs filename HASH_A = Inr ha" and "hash cs filename HASH_B = Inr hb"
  shows "get_hash_table_entry cs self filename
           = Inr (find (\<lambda>entry. uint (hash_a entry) = ha \<and> uint (hash_b entry) = hb)
                    (hash_table self))"
  using assms by (simp add: get_hash_table_entry_def)

text \<open>
  Claim C7: \<open>read_file\<close> returns \<^verbatim>\<open>None\<close> (\<open>Inr None\<close>: not an exception, and not the
  empty content \<open>Inr (Some [])\<close>) exactly when the name has no entry in the hash table, or
  the block entry it resolves to has \<open>MPQ_FILE_EXISTS\<close> clear, or that entry has
  \<open>archived_size = 0\<close>. (A hash entry whose block index is past the end of the block
  table resolves to no block entry: the call raises \<^verbatim>\<open>IndexError\<close>.)
\<close>

theorem read_file_not_found:
  "fst (read_file cd cs self filename force_decompress) = Inr None \<longleftrightarrow>
     (get_hash_table_entry cs self filename = Inr None
      \<or> (\<exists>hash_entry.
            get_hash_table_entry cs self filename = Inr (Some hash_entry)
            \<and> unat (block_table_index hash_entry) < length (block_table self)
            \<and> (flags (block_table self ! unat (block_table_index hash_entry))
                   AND MPQ_FILE_EXISTS = 0
                \<or> archived_size (block_table self ! unat (block_table_index hash_entry)) = 0)))"
  by (auto simp: read_file_def Let_def split: sum.splits option.splits prod.splits)

theorem read_file_not_found_witness:
  "fst (read_file
         \<lparr>zlib_decompress = (\<lambda>d. None), bz2_decompress = (\<lambda>d. None), ttdecomp = None\<rparr>
         \<lparr>upper_full = (\<lambda>c. [c]), lower_full = (\<lambda>s i. [s ! i])\<rparr>
         \<lparr>file_h = \<lparr>content = [1, 2, 3, 4], pos = 0\<rparr>,
          header = \<lparr>sector_size_shift = 3, hash_table_offset = 0, block_table_offset = 0,
                    hash_table_entries = 1, block_table_entries = 1, hdr_offset = 0\<rparr>,
          hash_table = [\<lparr>hash_a = 0x7FED7FED, hash_b = 0x7FED7FED, locale_id = 0,
                          platform = 0, block_table_index = 0\<rparr>],
          block_table = [\<lparr>offset = 0, archived_size = 4, size_orig = 4, flags = 0x01000000\<rparr>],
          files = None\<rparr>
         (Str []) False) = Inr None"
  by (simp only: read_file_not_found)
     (simp add: get_hash_table_entry_def hash_def str_upper_def MPQ_FILE_EXISTS_def)

subsection \<open>What a read leaves unchanged\<close>

lemma read_file_frame:
  "header (snd (read_file cd cs self filename force_decompress)) = header self
   \<and> hash_table (snd (read_file cd cs self filename force_decompress)) = hash_table self
   \<and> block_table (snd (read_file cd cs self filename force_decompress)) = block_table self
   \<and> files (snd (read_file cd cs self filename force_decompress)) = files self"
  by (auto simp: read_file_def Let_def split: sum.splits option.splits prod.splits)

lemma extract_loop_frame:
  "header (snd (extract_loop cd cs fs result self)) = header self
   \<and> hash_table (snd (extract_loop cd cs fs result self)) = hash_table self
   \<and> block_table (snd (extract_loop cd cs fs result self)) = block_table self"
proof (induction fs arbitrary: result self)
  case Nil
  show ?case by simp
next
  case (Cons f rest)
  obtain r self' where rf: "read_file cd cs self f False = (r, self')"
    by (cases "read_file cd cs self f False")
  have fr: "header self' = header self \<and> hash_table self' = hash_table self
            \<and> block_table self' = block_table self"
    using read_file_frame [of cd cs self f False] rf by simp
  show ?case
  proof (cases r)
    case (Inl e)
    then show ?thesis using rf fr by simp
  next
    case (Inr data)
    then show ?thesis using rf fr by (simp add: Cons.IH)
  qed
qed

text \<open>
  Claim C9: \<open>read_file\<close> and \<open>extract_mem\<close> leave the header, the hash table and the
  block table of the archive object as they were, for every argument and whether they
  return or raise (they move the position of the file only).
\<close>

theorem tables_immutable:
  "header (snd (read_file cd cs self filename force_decompress)) = header self
   \<and> hash_table (snd (read_file cd cs self filename force_decompress)) = hash_table self
   \<and> block_table (snd (read_file cd cs self filename force_decompress)) = block_table self
   \<and> header (snd (extract_mem cd cs self files_arg)) = header self
   \<and> hash_table (snd (extract_mem cd cs self files_arg)) = hash_table self
   \<and> block_table (snd (extract_mem cd cs self files_arg)) = block_table self"
proof -
  have "header (snd (extract_mem cd cs self files_arg)) = header self
   \<and> hash_table (snd (extract_mem cd cs self files_arg)) = hash_table self
   \<and> block_table (snd (extract_mem cd cs self files_arg)) = block_table self"
    by (simp add: extract_mem_def extract_loop_frame split: option.split list.split
          del: extract_loop.simps)
  then show ?thesis using read_file_frame by simp
qed

end
